theory Spec2Isabelle
  imports Main
begin

section \<open>The VGA terminal scan-out engine\<close>

text \<open>
  A shallow embedding of \<^verbatim>\<open>VGATerminalSubtarget\<close>
  (\<^verbatim>\<open>software/glasgow/applet/vga_terminal/__init__.py\<close>).  The class describes a
  synchronous circuit in the pixel clock domain: every statement of \<^verbatim>\<open>self.sync.pix\<close>
  reads the registers as they are before the clock edge and all registers change together.
  One clock edge is the function \<open>tick\<close>; the combinational outputs are functions of the
  state.
\<close>

subsection \<open>Signals of the hardware description language\<close>

text \<open>
  The number of bits of \<^verbatim>\<open>Signal(max=N)\<close> is \<^verbatim>\<open>bits_for(N - 1)\<close>, and the
  constructor asserts \<^verbatim>\<open>0 < N - 1\<close>.  For a positive number \<^verbatim>\<open>bits_for\<close> is the
  length of its binary numeral; for zero it is one.
\<close>

fun bit_length :: "nat \<Rightarrow> nat" where
  "bit_length n = (if n = 0 then 0 else Suc (bit_length (n div 2)))"

declare bit_length.simps [simp del]

definition bits_for :: "nat \<Rightarrow> nat" where
  "bits_for n = (if 0 < n then bit_length n else 1)"

datatype error = ZeroDivisionError | AssertionError

definition signal_max :: "nat \<Rightarrow> error + nat" where
  "signal_max N = (if N - 1 \<le> 0 then Inl AssertionError else Inr (bits_for (N - 1)))"

text \<open>\<^verbatim>\<open>Cat\<close> concatenates bits, the first one least significant.\<close>

fun Cat :: "bool list \<Rightarrow> nat" where
  "Cat [] = 0"
| "Cat (b # bs) = of_bool b + 2 * Cat bs"

text \<open>
  A synchronous read port of a memory of the given width: the word stored at the address,
  cut to the width.  Words past the end of the initial contents read as zero.
\<close>

definition mem_read :: "nat \<Rightarrow> nat list \<Rightarrow> nat \<Rightarrow> nat" where
  "mem_read width init adr = (if adr < length init then init ! adr else 0) mod 2 ^ width"

subsection \<open>Configuration, inputs and registers\<close>

record config =
  h_active :: nat
  v_active :: nat
  font_width :: nat
  font_height :: nat
  blink_cyc :: nat

record memories =
  font_data :: "nat list"
  char_mem_init :: "nat list"
  attr_mem_init :: "nat list"

record vga =
  v_stb :: bool
  h_stb :: bool
  v_en :: bool
  h_en :: bool

record state =
  char_ctr :: nat
  char_l_ctr :: nat
  font_h_ctr :: nat
  font_v_ctr :: nat
  font_shreg :: nat
  attr_reg :: nat
  undrl_reg :: bool
  blink_ctr :: nat
  blink_reg :: bool
  char_dat_r :: nat
  attr_dat_r :: nat
  font_dat_r :: nat

record pix =
  pix_r :: bool
  pix_g :: bool
  pix_b :: bool

definition char_mem_depth :: "config \<Rightarrow> nat" where
  "char_mem_depth cfg = (h_active cfg div font_width cfg) * (v_active cfg div font_height cfg)"

definition char_ctr_bits :: "config \<Rightarrow> nat" where
  "char_ctr_bits cfg = bits_for (char_mem_depth cfg - 1)"

definition font_h_ctr_bits :: "config \<Rightarrow> nat" where
  "font_h_ctr_bits cfg = bits_for (font_width cfg - 1)"

definition font_v_ctr_bits :: "config \<Rightarrow> nat" where
  "font_v_ctr_bits cfg = bits_for (font_height cfg - 1)"

definition blink_ctr_bits :: "config \<Rightarrow> nat" where
  "blink_ctr_bits cfg = bits_for (blink_cyc cfg - 1)"

definition font_adr_bits :: "config \<Rightarrow> nat" where
  "font_adr_bits cfg = bits_for (font_height cfg * 256 - 1)"

subsection \<open>Construction\<close>

text \<open>
  Registers start at zero.  The constructor computes the depth of the character memory by
  two floor divisions, which raise on a zero divisor, and sizes four counters with
  \<^verbatim>\<open>Signal(max=...)\<close>.  It has no check of its own.
\<close>

definition power_on :: state where
  "power_on = \<lparr>char_ctr = 0, char_l_ctr = 0, font_h_ctr = 0, font_v_ctr = 0,
     font_shreg = 0, attr_reg = 0, undrl_reg = False, blink_ctr = 0, blink_reg = False,
     char_dat_r = 0, attr_dat_r = 0, font_dat_r = 0\<rparr>"

definition construct :: "config \<Rightarrow> memories \<Rightarrow> error + state" where
  "construct cfg mem =
     (if font_width cfg = 0 \<or> font_height cfg = 0 then Inl ZeroDivisionError
      else case signal_max (char_mem_depth cfg) of Inl e \<Rightarrow> Inl e | Inr _ \<Rightarrow>
        (case signal_max (font_width cfg) of Inl e \<Rightarrow> Inl e | Inr _ \<Rightarrow>
          (case signal_max (font_height cfg) of Inl e \<Rightarrow> Inl e | Inr _ \<Rightarrow>
            (case signal_max (blink_cyc cfg) of Inl e \<Rightarrow> Inl e | Inr _ \<Rightarrow>
               Inr power_on))))"

subsection \<open>One pixel clock edge\<close>

text \<open>
  Each group of statements reads the registers \<open>s\<close> before the edge and writes into \<open>t\<close>.
  An assignment to a counter keeps the low bits that fit the counter.
\<close>

definition sync_scan :: "config \<Rightarrow> vga \<Rightarrow> state \<Rightarrow> state \<Rightarrow> state" where
  "sync_scan cfg i s t =
     (if v_stb i then
        t\<lparr>char_ctr := 0, char_l_ctr := 0, font_v_ctr := 0, font_h_ctr := 0\<rparr>
      else if h_stb i \<and> v_en i then
        (if font_v_ctr s = font_height cfg - 1 then
           t\<lparr>char_l_ctr := char_ctr s, font_v_ctr := 0\<rparr>
         else
           t\<lparr>char_ctr := char_l_ctr s,
             font_v_ctr := (font_v_ctr s + 1) mod 2 ^ font_v_ctr_bits cfg\<rparr>)
        \<lparr>font_h_ctr := 0\<rparr>
      else if v_en i \<and> h_en i then
        (if font_h_ctr s = 0 then
           t\<lparr>char_ctr := (char_ctr s + 1) mod 2 ^ char_ctr_bits cfg\<rparr>
         else t)
        \<lparr>font_h_ctr :=
           (if font_h_ctr s = font_width cfg - 1 then 0
            else (font_h_ctr s + 1) mod 2 ^ font_h_ctr_bits cfg)\<rparr>
      else t)"

definition font_line :: "config \<Rightarrow> state \<Rightarrow> nat" where
  "font_line cfg s = Cat (rev (map (\<lambda>n. bit (font_dat_r s) n) [0..<font_width cfg]))"

definition sync_latch :: "config \<Rightarrow> vga \<Rightarrow> state \<Rightarrow> state \<Rightarrow> state" where
  "sync_latch cfg i s t =
     (if \<not> h_en i \<or> font_h_ctr s = font_width cfg - 1 then
        t\<lparr>font_shreg := font_line cfg s,
          attr_reg := attr_dat_r s,
          undrl_reg := (font_v_ctr s = font_height cfg - 1)\<rparr>
      else
        t\<lparr>font_shreg := (font_shreg s mod 2 ^ font_width cfg) div 2\<rparr>)"

definition sync_blink :: "config \<Rightarrow> state \<Rightarrow> state \<Rightarrow> state" where
  "sync_blink cfg s t =
     (if blink_ctr s = blink_cyc cfg - 1 then
        t\<lparr>blink_ctr := 0, blink_reg := \<not> blink_reg s\<rparr>
      else
        t\<lparr>blink_ctr := (blink_ctr s + 1) mod 2 ^ blink_ctr_bits cfg\<rparr>)"

definition sync_ports :: "config \<Rightarrow> memories \<Rightarrow> state \<Rightarrow> state \<Rightarrow> state" where
  "sync_ports cfg mem s t =
     t\<lparr>char_dat_r := mem_read 8 (char_mem_init mem) (char_ctr s),
       attr_dat_r := mem_read 5 (attr_mem_init mem) (char_ctr s),
       font_dat_r := mem_read (font_width cfg) (font_data mem)
         ((char_dat_r s * font_height cfg + font_v_ctr s) mod 2 ^ font_adr_bits cfg)\<rparr>"

definition tick :: "config \<Rightarrow> memories \<Rightarrow> vga \<Rightarrow> state \<Rightarrow> state" where
  "tick cfg mem i s =
     sync_ports cfg mem s (sync_blink cfg s (sync_latch cfg i s (sync_scan cfg i s s)))"

fun run :: "config \<Rightarrow> memories \<Rightarrow> vga list \<Rightarrow> state \<Rightarrow> state" where
  "run cfg mem [] s = s"
| "run cfg mem (i # ins) s = run cfg mem ins (tick cfg mem i s)"

text \<open>The registers as they stand before each clock edge of a run, in order.\<close>

fun trace :: "config \<Rightarrow> memories \<Rightarrow> vga list \<Rightarrow> state \<Rightarrow> state list" where
  "trace cfg mem [] s = []"
| "trace cfg mem (i # ins) s = s # trace cfg mem ins (tick cfg mem i s)"

subsection \<open>Combinational outputs\<close>

definition pix_fg :: "state \<Rightarrow> bool" where
  "pix_fg s \<longleftrightarrow>
     (bit (font_shreg s) 0 \<or> (undrl_reg s \<and> bit (attr_reg s) 3)) \<and>
     (\<not> bit (attr_reg s) 4 \<or> blink_reg s)"

definition vga_pix :: "state \<Rightarrow> pix" where
  "vga_pix s = \<lparr>pix_r = (pix_fg s \<and> bit (attr_reg s) 0),
                pix_g = (pix_fg s \<and> bit (attr_reg s) 1),
                pix_b = (pix_fg s \<and> bit (attr_reg s) 2)\<rparr>"

subsection \<open>The timing inputs of a normal frame\<close>

text \<open>
  The video timing generator (\<^verbatim>\<open>VGAOutputApplet\<close>) is not part of the source at hand;
  the engine sees it only as the four inputs of a tick.  Five input values are named
  here: the vertical-sync tick, a tick with both enables active, a horizontal blanking tick
  inside the active lines, the horizontal-sync tick of an active line, and a tick of vertical
  blanking.
\<close>

definition vsync_in :: vga where
  "vsync_in = \<lparr>v_stb = True, h_stb = False, v_en = False, h_en = False\<rparr>"

definition pixel_in :: vga where
  "pixel_in = \<lparr>v_stb = False, h_stb = False, v_en = True, h_en = True\<rparr>"

definition hblank_in :: vga where
  "hblank_in = \<lparr>v_stb = False, h_stb = False, v_en = True, h_en = False\<rparr>"

definition hsync_in :: vga where
  "hsync_in = \<lparr>v_stb = False, h_stb = True, v_en = True, h_en = False\<rparr>"

definition vblank_in :: vga where
  "vblank_in = \<lparr>v_stb = False, h_stb = False, v_en = False, h_en = False\<rparr>"

text \<open>
  Modelled from the spec: the input sequence of one active scanline, which the absent timing
  generator produces: \<open>hb\<close> blanking ticks, \<open>h_active\<close> ticks with both enables active,
  \<open>hf\<close> blanking ticks and one horizontal-sync tick while the vertical enable is active.
\<close>

definition scanline :: "config \<Rightarrow> nat \<Rightarrow> nat \<Rightarrow> vga list" where
  "scanline cfg hb hf =
     replicate hb hblank_in @ replicate (h_active cfg) pixel_in @ replicate hf hblank_in @
     [hsync_in]"

text \<open>
  Modelled from the spec: a row group is the \<open>font_height\<close> consecutive scanlines of one
  row of cells.
\<close>

definition row_group :: "config \<Rightarrow> nat \<Rightarrow> nat \<Rightarrow> vga list" where
  "row_group cfg hb hf = concat (replicate (font_height cfg) (scanline cfg hb hf))"

text \<open>
  Modelled from the spec: a normal frame is one vertical-sync tick, the \<open>v_active\<close> active
  scanlines and \<open>vb\<close> ticks of vertical blanking.
\<close>

definition frame_body :: "config \<Rightarrow> nat \<Rightarrow> nat \<Rightarrow> nat \<Rightarrow> vga list" where
  "frame_body cfg hb hf vb =
     concat (replicate (v_active cfg) (scanline cfg hb hf)) @ replicate vb vblank_in"

definition frame :: "config \<Rightarrow> nat \<Rightarrow> nat \<Rightarrow> nat \<Rightarrow> vga list" where
  "frame cfg hb hf vb = vsync_in # frame_body cfg hb hf vb"

definition cells_per_row :: "config \<Rightarrow> nat" where
  "cells_per_row cfg = h_active cfg div font_width cfg"

text \<open>The addresses the tracker presents to the cell buffers on the ticks of one scanline
  of the row group that starts at cell \<open>R\<close>.\<close>

definition scanline_addresses :: "config \<Rightarrow> nat \<Rightarrow> nat \<Rightarrow> nat \<Rightarrow> nat list" where
  "scanline_addresses cfg hb hf R =
     replicate hb R @
     map (\<lambda>j. (R + (j + font_width cfg - 1) div font_width cfg) mod 2 ^ char_ctr_bits cfg)
       [0..<h_active cfg] @
     replicate (Suc hf) ((R + cells_per_row cfg) mod 2 ^ char_ctr_bits cfg)"

subsection \<open>Concrete configurations\<close>

text \<open>The configuration of the spec's end-to-end scenario (640 by 480 pixels, glyphs of 8 by
  16), a grid of two by two cells of two by two pixels, a grid of one by three such cells,
  and memories without initial contents.\<close>

definition vga_cfg :: config where
  "vga_cfg = \<lparr>h_active = 640, v_active = 480, font_width = 8, font_height = 16,
     blink_cyc = 12587500\<rparr>"

definition small_cfg :: config where
  "small_cfg = \<lparr>h_active = 4, v_active = 4, font_width = 2, font_height = 2, blink_cyc = 2\<rparr>"

definition column_cfg :: config where
  "column_cfg = \<lparr>h_active = 2, v_active = 6, font_width = 2, font_height = 2, blink_cyc = 2\<rparr>"

definition empty_mem :: memories where
  "empty_mem = \<lparr>font_data = [], char_mem_init = [], attr_mem_init = []\<rparr>"

text \<open>The four registers of the scan position tracker, as a tuple.\<close>

definition scan_regs :: "state \<Rightarrow> nat \<times> nat \<times> nat \<times> nat" where
  "scan_regs s = (char_ctr s, char_l_ctr s, font_h_ctr s, font_v_ctr s)"

text \<open>The tracker's part of a tick on that tuple; lemma \<open>scan_regs_tick\<close> relates it to
  \<open>tick\<close>.\<close>

definition scan_step ::
  "config \<Rightarrow> vga \<Rightarrow> nat \<times> nat \<times> nat \<times> nat \<Rightarrow> nat \<times> nat \<times> nat \<times> nat" where
  "scan_step cfg i r = (case r of (c, l, h, v) \<Rightarrow>
     if v_stb i then (0, 0, 0, 0)
     else if h_stb i \<and> v_en i then
       (if v = font_height cfg - 1 then (c, c, 0, 0)
        else (l, l, 0, (v + 1) mod 2 ^ font_v_ctr_bits cfg))
     else if v_en i \<and> h_en i then
       ((if h = 0 then (c + 1) mod 2 ^ char_ctr_bits cfg else c), l,
        (if h = font_width cfg - 1 then 0 else (h + 1) mod 2 ^ font_h_ctr_bits cfg), v)
     else (c, l, h, v))"

section \<open>Properties\<close>

subsection \<open>Widths and register projections\<close>

lemma less_two_power_bit_length: "n < 2 ^ bit_length n"
proof (induction n rule: bit_length.induct)
  case (1 n)
  show ?case
  proof (cases "n = 0")
    case True
    then show ?thesis by (simp add: bit_length.simps)
  next
    case False
    with 1 have "n div 2 < 2 ^ bit_length (n div 2)" by simp
    then have "n < 2 * 2 ^ bit_length (n div 2)" by linarith
    with False show ?thesis by (simp add: bit_length.simps [of n])
  qed
qed

lemma le_two_power_bits_for: "0 < N \<Longrightarrow> N \<le> 2 ^ bits_for (N - 1)"
  using less_two_power_bit_length [of "N - 1"]
  by (cases "N - 1 = 0") (auto simp: bits_for_def)

lemma scan_fields:
  "char_ctr (tick cfg mem i s) = char_ctr (sync_scan cfg i s s)"
  "char_l_ctr (tick cfg mem i s) = char_l_ctr (sync_scan cfg i s s)"
  "font_h_ctr (tick cfg mem i s) = font_h_ctr (sync_scan cfg i s s)"
  "font_v_ctr (tick cfg mem i s) = font_v_ctr (sync_scan cfg i s s)"
  by (simp_all add: tick_def sync_ports_def sync_blink_def sync_latch_def)

lemma scan_regs_tick: "scan_regs (tick cfg mem i s) = scan_step cfg i (scan_regs s)"
  by (simp add: scan_regs_def scan_step_def scan_fields sync_scan_def)

lemma scan_regs_run:
  "scan_regs (run cfg mem ins s) = foldl (\<lambda>r i. scan_step cfg i r) (scan_regs s) ins"
  by (induction ins arbitrary: s) (simp_all add: scan_regs_tick)

lemma latch_fields:
  "font_shreg (tick cfg mem i s) = font_shreg (sync_latch cfg i s s)"
  "attr_reg (tick cfg mem i s) = attr_reg (sync_latch cfg i s s)"
  "undrl_reg (tick cfg mem i s) = undrl_reg (sync_latch cfg i s s)"
  by (simp_all add: tick_def sync_ports_def sync_blink_def sync_latch_def sync_scan_def)

lemma blink_fields:
  "blink_ctr (tick cfg mem i s) = blink_ctr (sync_blink cfg s s)"
  "blink_reg (tick cfg mem i s) = blink_reg (sync_blink cfg s s)"
  by (simp_all add: tick_def sync_ports_def sync_blink_def sync_latch_def sync_scan_def)

lemma bit_Cat: "bit (Cat bs) k \<longleftrightarrow> k < length bs \<and> bs ! k"
proof (induction bs arbitrary: k)
  case Nil
  then show ?case by simp
next
  case (Cons b bs)
  show ?case
  proof (cases k)
    case 0
    then show ?thesis by (simp add: bit_0)
  next
    case (Suc j)
    have "(of_bool b + 2 * Cat bs) div 2 = Cat bs" by (cases b) simp_all
    with Suc Cons show ?thesis by (simp add: bit_Suc)
  qed
qed

lemma bit_font_line:
  "bit (font_line cfg s) k \<longleftrightarrow>
     k < font_width cfg \<and> bit (font_dat_r s) (font_width cfg - 1 - k)"
  by (auto simp: font_line_def bit_Cat rev_nth)

lemma bit_shift_slice:
  "bit ((x mod 2 ^ w) div 2) k \<longleftrightarrow> Suc k < w \<and> bit (x::nat) (Suc k)"
proof -
  have "(x mod 2 ^ w) div 2 = drop_bit 1 (take_bit w x)"
    by (simp add: take_bit_eq_mod drop_bit_eq_div)
  then show ?thesis
    by (simp add: bit_drop_bit_eq bit_take_bit_iff)
qed

subsection \<open>Frame reset\<close>

text \<open>
  Claim C3.  Whatever the registers hold and whatever the other three timing inputs are, a
  tick with the vertical-sync input active leaves \<open>char_ctr\<close>, \<open>char_l_ctr\<close>, \<open>font_v_ctr\<close>
  and \<open>font_h_ctr\<close> at zero: the frame reset comes first in the chain of conditions, so it
  wins over the line advance and the pixel advance.
\<close>

theorem frame_reset:
  assumes "v_stb i"
  shows "char_ctr (tick cfg mem i s) = 0 \<and> char_l_ctr (tick cfg mem i s) = 0 \<and>
         font_v_ctr (tick cfg mem i s) = 0 \<and> font_h_ctr (tick cfg mem i s) = 0"
  using assms by (simp add: scan_fields sync_scan_def)

theorem frame_reset_witness:
  "v_stb \<lparr>v_stb = True, h_stb = True, v_en = True, h_en = True\<rparr> \<and>
   char_ctr (tick vga_cfg empty_mem \<lparr>v_stb = True, h_stb = True, v_en = True, h_en = True\<rparr>
     (power_on\<lparr>char_ctr := 81, char_l_ctr := 80, font_v_ctr := 15, font_h_ctr := 7\<rparr>)) = 0 \<and>
   char_l_ctr (tick vga_cfg empty_mem \<lparr>v_stb = True, h_stb = True, v_en = True, h_en = True\<rparr>
     (power_on\<lparr>char_ctr := 81, char_l_ctr := 80, font_v_ctr := 15, font_h_ctr := 7\<rparr>)) = 0 \<and>
   font_v_ctr (tick vga_cfg empty_mem \<lparr>v_stb = True, h_stb = True, v_en = True, h_en = True\<rparr>
     (power_on\<lparr>char_ctr := 81, char_l_ctr := 80, font_v_ctr := 15, font_h_ctr := 7\<rparr>)) = 0 \<and>
   font_h_ctr (tick vga_cfg empty_mem \<lparr>v_stb = True, h_stb = True, v_en = True, h_en = True\<rparr>
     (power_on\<lparr>char_ctr := 81, char_l_ctr := 80, font_v_ctr := 15, font_h_ctr := 7\<rparr>)) = 0"
  using frame_reset [of "\<lparr>v_stb = True, h_stb = True, v_en = True, h_en = True\<rparr>" vga_cfg
      empty_mem "power_on\<lparr>char_ctr := 81, char_l_ctr := 80, font_v_ctr := 15, font_h_ctr := 7\<rparr>"]
  by simp

subsection \<open>Line advance\<close>

text \<open>
  Claim C2.  On a tick with the horizontal-sync and vertical-enable inputs active and the
  vertical-sync input inactive: on the last scanline of a glyph (\<open>font_v_ctr\<close> equal to the
  glyph height minus one) \<open>char_l_ctr\<close> takes the current \<open>char_ctr\<close> and \<open>font_v_ctr\<close>
  becomes zero; on any other scanline \<open>char_ctr\<close> takes the current \<open>char_l_ctr\<close> and
  \<open>font_v_ctr\<close> grows by one; \<open>font_h_ctr\<close> becomes zero in both cases.  The scanline
  counter is below the glyph height in every state the engine reaches (lemma
  \<open>run_counter_bounds\<close>).
\<close>

theorem line_advance:
  assumes "h_stb i" and "v_en i" and "\<not> v_stb i" and "font_v_ctr s < font_height cfg"
  shows "(if font_v_ctr s = font_height cfg - 1
          then char_l_ctr (tick cfg mem i s) = char_ctr s \<and>
               font_v_ctr (tick cfg mem i s) = 0 \<and>
               char_ctr (tick cfg mem i s) = char_ctr s
          else char_ctr (tick cfg mem i s) = char_l_ctr s \<and>
               font_v_ctr (tick cfg mem i s) = font_v_ctr s + 1 \<and>
               char_l_ctr (tick cfg mem i s) = char_l_ctr s) \<and>
         font_h_ctr (tick cfg mem i s) = 0"
proof -
  have "font_height cfg \<le> 2 ^ font_v_ctr_bits cfg"
    using assms(4) le_two_power_bits_for [of "font_height cfg"]
    by (simp add: font_v_ctr_bits_def)
  with assms show ?thesis
    by (auto simp: scan_fields sync_scan_def)
qed

theorem line_advance_witness:
  "h_stb hsync_in \<and> v_en hsync_in \<and> \<not> v_stb hsync_in \<and>
   font_v_ctr (power_on\<lparr>char_ctr := 80, font_v_ctr := 15, font_h_ctr := 3\<rparr>)
     < font_height vga_cfg \<and>
   char_l_ctr (tick vga_cfg empty_mem hsync_in
     (power_on\<lparr>char_ctr := 80, font_v_ctr := 15, font_h_ctr := 3\<rparr>)) = 80 \<and>
   font_v_ctr (tick vga_cfg empty_mem hsync_in
     (power_on\<lparr>char_ctr := 80, font_v_ctr := 15, font_h_ctr := 3\<rparr>)) = 0 \<and>
   font_h_ctr (tick vga_cfg empty_mem hsync_in
     (power_on\<lparr>char_ctr := 80, font_v_ctr := 15, font_h_ctr := 3\<rparr>)) = 0"
  using line_advance [of hsync_in "power_on\<lparr>char_ctr := 80, font_v_ctr := 15, font_h_ctr := 3\<rparr>"
      vga_cfg empty_mem]
  by (simp add: hsync_in_def vga_cfg_def power_on_def)

subsection \<open>Pixel advance\<close>

text \<open>
  Claim C4, as amended.  On a tick with both enable inputs active and neither the frame reset
  nor the line advance enabled, \<open>char_ctr\<close> changes exactly when \<open>font_h_ctr\<close> is zero, and
  then to its successor cut to the bits of the counter: the successor itself when that fits,
  zero when \<open>char_ctr\<close> holds the largest value of the counter.  \<open>font_h_ctr\<close> grows by one,
  and becomes zero when it equals the glyph width minus one.  \<open>font_h_ctr\<close> is below the glyph
  width in every state the engine reaches (lemma \<open>run_counter_bounds\<close>).
\<close>

theorem pixel_advance:
  assumes "v_en i" and "h_en i" and "\<not> v_stb i" and "\<not> (h_stb i \<and> v_en i)"
    and "font_h_ctr s < font_width cfg"
  shows "char_ctr (tick cfg mem i s) =
           (if font_h_ctr s = 0 then (char_ctr s + 1) mod 2 ^ char_ctr_bits cfg
            else char_ctr s) \<and>
         (font_h_ctr s = 0 \<and> char_ctr s + 1 < 2 ^ char_ctr_bits cfg \<longrightarrow>
            char_ctr (tick cfg mem i s) = char_ctr s + 1) \<and>
         font_h_ctr (tick cfg mem i s) =
           (if font_h_ctr s = font_width cfg - 1 then 0 else font_h_ctr s + 1)"
proof -
  have "font_width cfg \<le> 2 ^ font_h_ctr_bits cfg"
    using assms(5) le_two_power_bits_for [of "font_width cfg"]
    by (simp add: font_h_ctr_bits_def)
  with assms show ?thesis
    by (auto simp: scan_fields sync_scan_def)
qed

theorem pixel_advance_witness:
  "v_en pixel_in \<and> h_en pixel_in \<and> \<not> v_stb pixel_in \<and> \<not> (h_stb pixel_in \<and> v_en pixel_in) \<and>
   font_h_ctr (power_on\<lparr>char_ctr := 80\<rparr>) < font_width vga_cfg \<and>
   char_ctr (tick vga_cfg empty_mem pixel_in (power_on\<lparr>char_ctr := 80\<rparr>)) =
     81 mod 2 ^ char_ctr_bits vga_cfg \<and>
   font_h_ctr (tick vga_cfg empty_mem pixel_in (power_on\<lparr>char_ctr := 80\<rparr>)) = 1"
  using pixel_advance [of pixel_in "power_on\<lparr>char_ctr := 80\<rparr>" vga_cfg empty_mem]
  by (simp add: pixel_in_def vga_cfg_def power_on_def)

text \<open>
  The claim as stated fails where the counter is full.  In the grid of two by two cells the
  counter has two bits; on the first scanline of the second row of cells, the pixel tick that
  starts the second glyph finds \<open>char_ctr = 3\<close> and leaves it at \<open>0\<close>, not at \<open>4\<close>.
\<close>

theorem pixel_advance_counterexample:
  "v_en pixel_in \<and> h_en pixel_in \<and> \<not> v_stb pixel_in \<and> \<not> (h_stb pixel_in \<and> v_en pixel_in) \<and>
   font_h_ctr (run small_cfg empty_mem
     (vsync_in # row_group small_cfg 0 0 @ [pixel_in, pixel_in]) power_on) = 0 \<and>
   char_ctr (run small_cfg empty_mem
     (vsync_in # row_group small_cfg 0 0 @ [pixel_in, pixel_in]) power_on) = 3 \<and>
   char_ctr (tick small_cfg empty_mem pixel_in (run small_cfg empty_mem
     (vsync_in # row_group small_cfg 0 0 @ [pixel_in, pixel_in]) power_on)) \<noteq>
   char_ctr (run small_cfg empty_mem
     (vsync_in # row_group small_cfg 0 0 @ [pixel_in, pixel_in]) power_on) + 1"
proof -
  let ?S = "run small_cfg empty_mem
     (vsync_in # row_group small_cfg 0 0 @ [pixel_in, pixel_in]) power_on"
  have before: "scan_regs ?S = (3, 2, 0, 0)"
    unfolding scan_regs_run by code_simp
  have "scan_regs (tick small_cfg empty_mem pixel_in ?S) = (0, 2, 1, 0)"
    unfolding scan_regs_tick before by code_simp
  with before show ?thesis
    by (simp add: scan_regs_def pixel_in_def)
qed

subsection \<open>Render latch\<close>

text \<open>
  Claim C5.  Every tick does exactly one of two things to the render latch.  When the
  horizontal enable is inactive or \<open>font_h_ctr\<close> equals the glyph width minus one, bit \<open>k\<close> of
  the shift register becomes bit \<open>font_width - 1 - k\<close> of the fetched glyph row (so the most
  significant bit of the row is at position 0), the attribute register takes the fetched
  attribute and the underline flag takes \<open>font_v_ctr = font_height - 1\<close>.  Otherwise bit \<open>k\<close>
  of the shift register becomes its former bit \<open>k + 1\<close>, the top bit is cleared, and the
  attribute register and the underline flag keep their values.
\<close>

theorem render_latch:
  "(if \<not> h_en i \<or> font_h_ctr s = font_width cfg - 1
    then (\<forall>k. bit (font_shreg (tick cfg mem i s)) k \<longleftrightarrow>
               k < font_width cfg \<and> bit (font_dat_r s) (font_width cfg - 1 - k)) \<and>
         attr_reg (tick cfg mem i s) = attr_dat_r s \<and>
         undrl_reg (tick cfg mem i s) = (font_v_ctr s = font_height cfg - 1)
    else (\<forall>k. bit (font_shreg (tick cfg mem i s)) k \<longleftrightarrow>
               Suc k < font_width cfg \<and> bit (font_shreg s) (Suc k)) \<and>
         attr_reg (tick cfg mem i s) = attr_reg s \<and>
         undrl_reg (tick cfg mem i s) = undrl_reg s)"
  by (simp add: latch_fields sync_latch_def bit_font_line bit_shift_slice)

theorem render_latch_witness:
  "\<not> h_en hblank_in \<and>
   bit (font_shreg (tick vga_cfg empty_mem hblank_in
     (power_on\<lparr>font_dat_r := 128, attr_dat_r := 13, font_shreg := 2, font_h_ctr := 3\<rparr>))) 0 \<and>
   attr_reg (tick vga_cfg empty_mem hblank_in
     (power_on\<lparr>font_dat_r := 128, attr_dat_r := 13, font_shreg := 2, font_h_ctr := 3\<rparr>)) = 13 \<and>
   h_en pixel_in \<and>
   font_h_ctr (power_on\<lparr>font_dat_r := 128, attr_dat_r := 13, font_shreg := 2, font_h_ctr := 3\<rparr>)
     \<noteq> font_width vga_cfg - 1 \<and>
   bit (font_shreg (tick vga_cfg empty_mem pixel_in
     (power_on\<lparr>font_dat_r := 128, attr_dat_r := 13, font_shreg := 2, font_h_ctr := 3\<rparr>))) 0 \<and>
   attr_reg (tick vga_cfg empty_mem pixel_in
     (power_on\<lparr>font_dat_r := 128, attr_dat_r := 13, font_shreg := 2, font_h_ctr := 3\<rparr>)) = 0"
proof -
  let ?S = "power_on\<lparr>font_dat_r := 128, attr_dat_r := 13, font_shreg := 2, font_h_ctr := 3\<rparr>"
  have c: "\<not> h_en hblank_in" "h_en pixel_in" "font_h_ctr ?S \<noteq> font_width vga_cfg - 1"
    "font_width vga_cfg = 8" "font_dat_r ?S = 128" "attr_dat_r ?S = 13" "font_shreg ?S = 2"
    "attr_reg ?S = 0"
    by (simp_all add: hblank_in_def pixel_in_def vga_cfg_def power_on_def)
  have b: "bit (128::nat) 7" "bit (2::nat) (Suc 0)" by (simp_all add: bit_iff_odd)
  from render_latch [of hblank_in ?S vga_cfg empty_mem] c(1)
  have l: "\<forall>k. bit (font_shreg (tick vga_cfg empty_mem hblank_in ?S)) k \<longleftrightarrow>
      k < font_width vga_cfg \<and> bit (font_dat_r ?S) (font_width vga_cfg - 1 - k)"
    "attr_reg (tick vga_cfg empty_mem hblank_in ?S) = attr_dat_r ?S"
    by simp_all
  from render_latch [of pixel_in ?S vga_cfg empty_mem] c(2,3)
  have r: "\<forall>k. bit (font_shreg (tick vga_cfg empty_mem pixel_in ?S)) k \<longleftrightarrow>
      Suc k < font_width vga_cfg \<and> bit (font_shreg ?S) (Suc k)"
    "attr_reg (tick vga_cfg empty_mem pixel_in ?S) = attr_reg ?S"
    by simp_all
  from l(1) [rule_format, of 0] b(1)
  have "bit (font_shreg (tick vga_cfg empty_mem hblank_in ?S)) 0"
    by (simp only: c(4,5)) simp
  moreover from r(1) [rule_format, of 0] b(2)
  have "bit (font_shreg (tick vga_cfg empty_mem pixel_in ?S)) 0"
    by (simp only: c(4,7)) simp
  ultimately show ?thesis
    using c(1,2,3) l(2) r(2) by (simp only: c(6,8)) simp
qed

subsection \<open>Pixel compositor\<close>

text \<open>
  Claim C6.  With the foreground active when bit 0 of the shift register or the underline
  (underline flag and attribute bit 3) is set, and attribute bit 4 is clear or the blink phase
  is set, red, green and blue are the foreground gated by attribute bits 0, 1 and 2.  For the
  attribute \<open>0b01101\<close> (colour 5, underline, no blink), a set foreground bit and a set
  underline flag the output is red and blue; with attribute bit 4 set and the blink phase
  clear the output is black whatever the foreground bit.
\<close>

theorem compositor:
  "pix_r (vga_pix s) = (((bit (font_shreg s) 0 \<or> (undrl_reg s \<and> bit (attr_reg s) 3)) \<and>
      (\<not> bit (attr_reg s) 4 \<or> blink_reg s)) \<and> bit (attr_reg s) 0) \<and>
   pix_g (vga_pix s) = (((bit (font_shreg s) 0 \<or> (undrl_reg s \<and> bit (attr_reg s) 3)) \<and>
      (\<not> bit (attr_reg s) 4 \<or> blink_reg s)) \<and> bit (attr_reg s) 1) \<and>
   pix_b (vga_pix s) = (((bit (font_shreg s) 0 \<or> (undrl_reg s \<and> bit (attr_reg s) 3)) \<and>
      (\<not> bit (attr_reg s) 4 \<or> blink_reg s)) \<and> bit (attr_reg s) 2) \<and>
   (attr_reg s = 13 \<and> bit (font_shreg s) 0 \<and> undrl_reg s \<longrightarrow>
      vga_pix s = \<lparr>pix_r = True, pix_g = False, pix_b = True\<rparr>) \<and>
   (bit (attr_reg s) 4 \<and> \<not> blink_reg s \<longrightarrow>
      vga_pix s = \<lparr>pix_r = False, pix_g = False, pix_b = False\<rparr>)"
  by (simp add: vga_pix_def pix_fg_def)

theorem compositor_witness:
  "attr_reg (power_on\<lparr>attr_reg := 13, font_shreg := 1, undrl_reg := True\<rparr>) = 13 \<and>
   bit (font_shreg (power_on\<lparr>attr_reg := 13, font_shreg := 1, undrl_reg := True\<rparr>)) 0 \<and>
   undrl_reg (power_on\<lparr>attr_reg := 13, font_shreg := 1, undrl_reg := True\<rparr>) \<and>
   vga_pix (power_on\<lparr>attr_reg := 13, font_shreg := 1, undrl_reg := True\<rparr>) =
     \<lparr>pix_r = True, pix_g = False, pix_b = True\<rparr> \<and>
   bit (attr_reg (power_on\<lparr>attr_reg := 29, font_shreg := 1, undrl_reg := True\<rparr>)) 4 \<and>
   \<not> blink_reg (power_on\<lparr>attr_reg := 29, font_shreg := 1, undrl_reg := True\<rparr>) \<and>
   vga_pix (power_on\<lparr>attr_reg := 29, font_shreg := 1, undrl_reg := True\<rparr>) =
     \<lparr>pix_r = False, pix_g = False, pix_b = False\<rparr>"
proof -
  have b: "bit (29::nat) 4" by (simp add: bit_iff_odd)
  show ?thesis
    using compositor [of "power_on\<lparr>attr_reg := 13, font_shreg := 1, undrl_reg := True\<rparr>"]
      compositor [of "power_on\<lparr>attr_reg := 29, font_shreg := 1, undrl_reg := True\<rparr>"] b
    by (simp add: power_on_def)
qed

subsection \<open>Counter bounds\<close>

text \<open>
  Claim C10.  For every state and every combination of the timing inputs, each of the three
  bounds is kept by a tick: \<open>font_h_ctr\<close> below the glyph width, \<open>font_v_ctr\<close> below the
  glyph height, \<open>blink_ctr\<close> below the blink half period.  A counter within its bound
  becomes zero, or grows by one from a value below the bound minus one, or (the two glyph
  counters) keeps its value.
\<close>

theorem counter_bounds:
  "(font_h_ctr s < font_width cfg \<longrightarrow>
      font_h_ctr (tick cfg mem i s) < font_width cfg \<and>
      (font_h_ctr (tick cfg mem i s) = 0 \<or> font_h_ctr (tick cfg mem i s) = font_h_ctr s \<or>
       font_h_ctr s < font_width cfg - 1 \<and> font_h_ctr (tick cfg mem i s) = font_h_ctr s + 1)) \<and>
   (font_v_ctr s < font_height cfg \<longrightarrow>
      font_v_ctr (tick cfg mem i s) < font_height cfg \<and>
      (font_v_ctr (tick cfg mem i s) = 0 \<or> font_v_ctr (tick cfg mem i s) = font_v_ctr s \<or>
       font_v_ctr s < font_height cfg - 1 \<and> font_v_ctr (tick cfg mem i s) = font_v_ctr s + 1)) \<and>
   (blink_ctr s < blink_cyc cfg \<longrightarrow>
      blink_ctr (tick cfg mem i s) < blink_cyc cfg \<and>
      (blink_ctr (tick cfg mem i s) = 0 \<or>
       blink_ctr s < blink_cyc cfg - 1 \<and> blink_ctr (tick cfg mem i s) = blink_ctr s + 1))"
proof (intro conjI impI)
  assume h: "font_h_ctr s < font_width cfg"
  then have w: "font_width cfg \<le> 2 ^ font_h_ctr_bits cfg"
    using le_two_power_bits_for [of "font_width cfg"] by (simp add: font_h_ctr_bits_def)
  from h w show "font_h_ctr (tick cfg mem i s) < font_width cfg"
    by (auto simp: scan_fields sync_scan_def)
  from h w show "font_h_ctr (tick cfg mem i s) = 0 \<or>
       font_h_ctr (tick cfg mem i s) = font_h_ctr s \<or>
       font_h_ctr s < font_width cfg - 1 \<and> font_h_ctr (tick cfg mem i s) = font_h_ctr s + 1"
    by (auto simp: scan_fields sync_scan_def)
next
  assume h: "font_v_ctr s < font_height cfg"
  then have w: "font_height cfg \<le> 2 ^ font_v_ctr_bits cfg"
    using le_two_power_bits_for [of "font_height cfg"] by (simp add: font_v_ctr_bits_def)
  from h w show "font_v_ctr (tick cfg mem i s) < font_height cfg"
    by (auto simp: scan_fields sync_scan_def)
  from h w show "font_v_ctr (tick cfg mem i s) = 0 \<or>
       font_v_ctr (tick cfg mem i s) = font_v_ctr s \<or>
       font_v_ctr s < font_height cfg - 1 \<and> font_v_ctr (tick cfg mem i s) = font_v_ctr s + 1"
    by (auto simp: scan_fields sync_scan_def)
next
  assume h: "blink_ctr s < blink_cyc cfg"
  then have w: "blink_cyc cfg \<le> 2 ^ blink_ctr_bits cfg"
    using le_two_power_bits_for [of "blink_cyc cfg"] by (simp add: blink_ctr_bits_def)
  from h w show "blink_ctr (tick cfg mem i s) < blink_cyc cfg"
    by (auto simp: blink_fields sync_blink_def)
  from h w show "blink_ctr (tick cfg mem i s) = 0 \<or>
       blink_ctr s < blink_cyc cfg - 1 \<and> blink_ctr (tick cfg mem i s) = blink_ctr s + 1"
    by (auto simp: blink_fields sync_blink_def)
qed

theorem counter_bounds_witness:
  "font_h_ctr (power_on\<lparr>font_h_ctr := 7, font_v_ctr := 14, blink_ctr := 12587499\<rparr>)
     < font_width vga_cfg \<and>
   font_v_ctr (power_on\<lparr>font_h_ctr := 7, font_v_ctr := 14, blink_ctr := 12587499\<rparr>)
     < font_height vga_cfg \<and>
   blink_ctr (power_on\<lparr>font_h_ctr := 7, font_v_ctr := 14, blink_ctr := 12587499\<rparr>)
     < blink_cyc vga_cfg \<and>
   font_h_ctr (tick vga_cfg empty_mem hsync_in
     (power_on\<lparr>font_h_ctr := 7, font_v_ctr := 14, blink_ctr := 12587499\<rparr>)) < font_width vga_cfg \<and>
   font_v_ctr (tick vga_cfg empty_mem hsync_in
     (power_on\<lparr>font_h_ctr := 7, font_v_ctr := 14, blink_ctr := 12587499\<rparr>)) < font_height vga_cfg \<and>
   blink_ctr (tick vga_cfg empty_mem hsync_in
     (power_on\<lparr>font_h_ctr := 7, font_v_ctr := 14, blink_ctr := 12587499\<rparr>)) < blink_cyc vga_cfg"
  using counter_bounds [of "power_on\<lparr>font_h_ctr := 7, font_v_ctr := 14, blink_ctr := 12587499\<rparr>"
      vga_cfg empty_mem hsync_in]
  by (simp add: vga_cfg_def power_on_def)

subsection \<open>Runs\<close>

lemma run_append: "run cfg mem (xs @ ys) s = run cfg mem ys (run cfg mem xs s)"
  by (induction xs arbitrary: s) simp_all

lemma run_counter_bounds:
  assumes "font_h_ctr s < font_width cfg" and "font_v_ctr s < font_height cfg"
    and "blink_ctr s < blink_cyc cfg"
  shows "font_h_ctr (run cfg mem ins s) < font_width cfg \<and>
         font_v_ctr (run cfg mem ins s) < font_height cfg \<and>
         blink_ctr (run cfg mem ins s) < blink_cyc cfg"
  using assms
proof (induction ins arbitrary: s)
  case Nil
  then show ?case by simp
next
  case (Cons i ins)
  have w: "font_width cfg \<le> 2 ^ font_h_ctr_bits cfg" "font_height cfg \<le> 2 ^ font_v_ctr_bits cfg"
    "blink_cyc cfg \<le> 2 ^ blink_ctr_bits cfg"
    using Cons.prems le_two_power_bits_for [of "font_width cfg"]
      le_two_power_bits_for [of "font_height cfg"] le_two_power_bits_for [of "blink_cyc cfg"]
    by (simp_all add: font_h_ctr_bits_def font_v_ctr_bits_def blink_ctr_bits_def)
  have "font_h_ctr (tick cfg mem i s) < font_width cfg"
    using Cons.prems(1) w(1) by (auto simp: scan_fields sync_scan_def)
  moreover have "font_v_ctr (tick cfg mem i s) < font_height cfg"
    using Cons.prems(2) w(2) by (auto simp: scan_fields sync_scan_def)
  moreover have "blink_ctr (tick cfg mem i s) < blink_cyc cfg"
    using Cons.prems(3) w(3) by (auto simp: blink_fields sync_blink_def)
  ultimately show ?case using Cons.IH by simp
qed

subsection \<open>Blink oscillator\<close>

lemma blink_tick:
  assumes "blink_ctr s < blink_cyc cfg"
  shows "blink_ctr (tick cfg mem i s) = (if blink_ctr s = blink_cyc cfg - 1 then 0 else blink_ctr s + 1)"
    and "blink_reg (tick cfg mem i s) = (if blink_ctr s = blink_cyc cfg - 1 then \<not> blink_reg s else blink_reg s)"
proof -
  have "blink_cyc cfg \<le> 2 ^ blink_ctr_bits cfg"
    using assms le_two_power_bits_for [of "blink_cyc cfg"] by (simp add: blink_ctr_bits_def)
  with assms show "blink_ctr (tick cfg mem i s) = (if blink_ctr s = blink_cyc cfg - 1 then 0 else blink_ctr s + 1)"
    by (auto simp: blink_fields sync_blink_def)
  show "blink_reg (tick cfg mem i s) = (if blink_ctr s = blink_cyc cfg - 1 then \<not> blink_reg s else blink_reg s)"
    by (simp add: blink_fields sync_blink_def)
qed

lemma blink_run:
  assumes "blink_ctr s < blink_cyc cfg"
  shows "blink_ctr (run cfg mem ins s) = (blink_ctr s + length ins) mod blink_cyc cfg \<and>
         blink_reg (run cfg mem ins s) =
           (blink_reg s \<noteq> odd ((blink_ctr s + length ins) div blink_cyc cfg))"
  using assms
proof (induction ins arbitrary: s)
  case Nil
  then show ?case by simp
next
  case (Cons i ins)
  let ?P = "blink_cyc cfg"
  let ?t = "tick cfg mem i s"
  show ?case
  proof (cases "blink_ctr s = ?P - 1")
    case True
    with Cons.prems have c: "blink_ctr ?t = 0" and r: "blink_reg ?t = (\<not> blink_reg s)"
      by (simp_all add: blink_tick)
    from Cons.prems c have "blink_ctr ?t < ?P" by simp
    note ih = Cons.IH [OF this]
    from True Cons.prems have e: "blink_ctr s + length (i # ins) = length ins + ?P" by simp
    have m: "(length ins + ?P) mod ?P = length ins mod ?P" by simp
    from Cons.prems have pos: "0 < ?P" by simp
    have d: "(length ins + ?P) div ?P = Suc (length ins div ?P)"
      using pos by (simp add: div_add_self2)
    show ?thesis
      using ih c r unfolding e m d by auto
  next
    case False
    with Cons.prems have c: "blink_ctr ?t = blink_ctr s + 1" and r: "blink_reg ?t = blink_reg s"
      by (simp_all add: blink_tick)
    from Cons.prems False c have "blink_ctr ?t < ?P" by simp
    note ih = Cons.IH [OF this]
    show ?thesis using ih c r by simp
  qed
qed

lemma blink_run_independent:
  assumes "length ins = length ins'"
    and "blink_ctr s = blink_ctr s'" and "blink_reg s = blink_reg s'"
  shows "blink_ctr (run cfg mem ins s) = blink_ctr (run cfg mem ins' s') \<and>
         blink_reg (run cfg mem ins s) = blink_reg (run cfg mem ins' s')"
  using assms
proof (induction ins ins' arbitrary: s s' rule: list_induct2)
  case Nil
  then show ?case by simp
next
  case (Cons i ins i' ins')
  from Cons.prems have "blink_ctr (tick cfg mem i s) = blink_ctr (tick cfg mem i' s')"
    "blink_reg (tick cfg mem i s) = blink_reg (tick cfg mem i' s')"
    by (simp_all add: blink_fields sync_blink_def)
  from Cons.IH [OF this] show ?case by simp
qed

text \<open>
  Claim C7.  The blink counter and the blink phase after a tick, and after any run, do not
  depend on the timing inputs, in any state.  With the counter within \<open>0..blink_cyc - 1\<close>
  (as it is from power-on): a tick on which the counter equals \<open>blink_cyc - 1\<close> resets it
  to zero and inverts the phase, any other tick adds one to it and keeps the phase; after
  \<open>n\<close> ticks the counter is \<open>(c + n) mod blink_cyc\<close> and the phase has been inverted
  \<open>(c + n) div blink_cyc\<close> times, so it inverts once in every \<open>blink_cyc\<close> ticks.
\<close>

theorem blink_oscillator:
  "(length ins' = length ins \<longrightarrow>
      blink_ctr (run cfg mem ins' s) = blink_ctr (run cfg mem ins s) \<and>
      blink_reg (run cfg mem ins' s) = blink_reg (run cfg mem ins s)) \<and>
   blink_ctr (tick cfg mem i' s) = blink_ctr (tick cfg mem i s) \<and>
   blink_reg (tick cfg mem i' s) = blink_reg (tick cfg mem i s) \<and>
   (blink_ctr s < blink_cyc cfg \<longrightarrow>
      blink_ctr (tick cfg mem i s) =
        (if blink_ctr s = blink_cyc cfg - 1 then 0 else blink_ctr s + 1) \<and>
      blink_reg (tick cfg mem i s) =
        (if blink_ctr s = blink_cyc cfg - 1 then \<not> blink_reg s else blink_reg s) \<and>
      blink_ctr (run cfg mem ins s) = (blink_ctr s + length ins) mod blink_cyc cfg \<and>
      blink_reg (run cfg mem ins s) =
        (blink_reg s \<noteq> odd ((blink_ctr s + length ins) div blink_cyc cfg)) \<and>
      (length ins = blink_cyc cfg \<longrightarrow>
         blink_ctr (run cfg mem ins s) = blink_ctr s \<and>
         blink_reg (run cfg mem ins s) = (\<not> blink_reg s)))"
proof (intro conjI impI)
  assume "length ins' = length ins"
  from blink_run_independent [OF this refl refl, of cfg mem s]
  show "blink_ctr (run cfg mem ins' s) = blink_ctr (run cfg mem ins s)"
    and "blink_reg (run cfg mem ins' s) = blink_reg (run cfg mem ins s)"
    by simp_all
next
  show "blink_ctr (tick cfg mem i' s) = blink_ctr (tick cfg mem i s)"
    and "blink_reg (tick cfg mem i' s) = blink_reg (tick cfg mem i s)"
    by (simp_all add: blink_fields)
next
  assume b: "blink_ctr s < blink_cyc cfg"
  then have pos: "0 < blink_cyc cfg" by simp
  from blink_tick [OF b]
  show "blink_ctr (tick cfg mem i s) =
        (if blink_ctr s = blink_cyc cfg - 1 then 0 else blink_ctr s + 1)"
    and "blink_reg (tick cfg mem i s) =
        (if blink_ctr s = blink_cyc cfg - 1 then \<not> blink_reg s else blink_reg s)"
    by simp_all
  from blink_run [OF b, of mem ins]
  show r: "blink_ctr (run cfg mem ins s) = (blink_ctr s + length ins) mod blink_cyc cfg"
    and p: "blink_reg (run cfg mem ins s) =
        (blink_reg s \<noteq> odd ((blink_ctr s + length ins) div blink_cyc cfg))"
    by simp_all
  assume l: "length ins = blink_cyc cfg"
  with b pos have "(blink_ctr s + length ins) div blink_cyc cfg = 1"
    and "(blink_ctr s + length ins) mod blink_cyc cfg = blink_ctr s"
    by (simp_all add: div_add_self2)
  with r p show "blink_ctr (run cfg mem ins s) = blink_ctr s"
    and "blink_reg (run cfg mem ins s) = (\<not> blink_reg s)"
    by simp_all
qed

theorem blink_oscillator_witness:
  "length [vsync_in, hsync_in] = length [pixel_in, pixel_in] \<and>
   blink_ctr power_on < blink_cyc small_cfg \<and>
   length [pixel_in, pixel_in] = blink_cyc small_cfg \<and>
   blink_reg (run small_cfg empty_mem [vsync_in, hsync_in] power_on) =
     blink_reg (run small_cfg empty_mem [pixel_in, pixel_in] power_on) \<and>
   blink_ctr (run small_cfg empty_mem [pixel_in, pixel_in] power_on) = blink_ctr power_on \<and>
   blink_reg (run small_cfg empty_mem [pixel_in, pixel_in] power_on) = (\<not> blink_reg power_on)"
proof -
  have h: "length [vsync_in, hsync_in] = length [pixel_in, pixel_in]"
    "blink_ctr power_on < blink_cyc small_cfg"
    "length [pixel_in, pixel_in] = blink_cyc small_cfg"
    by (simp_all add: power_on_def small_cfg_def)
  from blink_oscillator [of "[vsync_in, hsync_in]" "[pixel_in, pixel_in]" small_cfg empty_mem
      power_on pixel_in pixel_in] h
  show ?thesis by blast
qed

subsection \<open>Construction\<close>

text \<open>
  Claim C9, as amended.  The constructor validates nothing itself.  It raises only where
  Python or the signal constructor does: a division by zero when the glyph width or height
  is zero, an assertion when the cell count, the glyph width, the glyph height or the blink
  half period is below two.  Every other configuration is accepted, whatever the remainder of
  the active width by the glyph width and whatever the sizes of the initial contents of the
  font, character and attribute memories; the cell count is the product of the two floor
  quotients.  The tick function is total, so nothing is raised during scan-out.
\<close>

theorem construct_accepts:
  "(construct cfg mem = Inr power_on \<longleftrightarrow>
      2 \<le> font_width cfg \<and> 2 \<le> font_height cfg \<and> 2 \<le> blink_cyc cfg \<and>
      2 \<le> (h_active cfg div font_width cfg) * (v_active cfg div font_height cfg)) \<and>
   (construct cfg mem = Inl ZeroDivisionError \<longleftrightarrow>
      font_width cfg = 0 \<or> font_height cfg = 0) \<and>
   (construct cfg mem = Inl AssertionError \<or> construct cfg mem = Inl ZeroDivisionError \<or>
    construct cfg mem = Inr power_on)"
  by (auto simp: construct_def signal_max_def char_mem_depth_def split: sum.splits if_splits)

text \<open>
  An active width of 5 with glyphs 2 wide, a font of 3 rows instead of 512, one character and
  six attributes for a grid of four cells: construction succeeds.
\<close>

theorem construct_counterexample:
  "\<not> font_width \<lparr>h_active = 5, v_active = 5, font_width = 2, font_height = 2, blink_cyc = 2\<rparr>
       dvd h_active \<lparr>h_active = 5, v_active = 5, font_width = 2, font_height = 2, blink_cyc = 2\<rparr> \<and>
   length (font_data \<lparr>font_data = [1, 2, 3], char_mem_init = [65], attr_mem_init = [7, 7, 7, 7, 7, 7]\<rparr>)
     \<noteq> 256 * font_height \<lparr>h_active = 5, v_active = 5, font_width = 2, font_height = 2, blink_cyc = 2\<rparr> \<and>
   construct \<lparr>h_active = 5, v_active = 5, font_width = 2, font_height = 2, blink_cyc = 2\<rparr>
     \<lparr>font_data = [1, 2, 3], char_mem_init = [65], attr_mem_init = [7, 7, 7, 7, 7, 7]\<rparr> =
   Inr power_on"
  by code_simp




subsection \<open>Scanlines, row groups and frames\<close>

lemma trace_append:
  "trace cfg mem (xs @ ys) s = trace cfg mem xs s @ trace cfg mem ys (run cfg mem xs s)"
  by (induction xs arbitrary: s) simp_all

lemma length_trace: "length (trace cfg mem ins s) = length ins"
  by (induction ins arbitrary: s) simp_all

lemma nth_trace: "n < length ins \<Longrightarrow> trace cfg mem ins s ! n = run cfg mem (take n ins) s"
proof (induction ins arbitrary: n s)
  case Nil
  then show ?case by simp
next
  case (Cons i ins)
  then show ?case by (cases n) simp_all
qed

lemma concat_replicate_Suc_snoc:
  "concat (replicate (Suc m) xs) = concat (replicate m xs) @ xs"
  by (induction m) simp_all

lemma ceil_div:
  assumes "0 < (n::nat)"
  shows "(k + n - 1) div n = (if k mod n = 0 then k div n else Suc (k div n))"
proof -
  define r where "r = k mod n"
  define q where "q = k div n"
  have k: "k = r + q * n" by (simp add: q_def r_def)
  from assms have r: "r < n" by (simp add: r_def)
  show ?thesis
  proof (cases "r = 0")
    case True
    with assms have "k + n - 1 = (n - 1) + q * n" by (simp add: k)
    then have "(k + n - 1) div n = q + (n - 1) div n"
      using assms by (simp only: div_mult_self1)
    with assms True show ?thesis by (simp add: q_def r_def)
  next
    case False
    with r have "k + n - 1 = (r - 1) + Suc q * n" by (simp add: k)
    then have "(k + n - 1) div n = Suc q + (r - 1) div n"
      using assms by (simp only: div_mult_self1)
    with r False show ?thesis by (simp add: q_def r_def)
  qed
qed


lemma scan_tick_pixel:
  assumes "font_h_ctr s < font_width cfg"
  shows "scan_regs (tick cfg mem pixel_in s) =
    ((if font_h_ctr s = 0 then (char_ctr s + 1) mod 2 ^ char_ctr_bits cfg else char_ctr s),
     char_l_ctr s,
     (if font_h_ctr s = font_width cfg - 1 then 0 else font_h_ctr s + 1),
     font_v_ctr s)"
proof -
  have "font_width cfg \<le> 2 ^ font_h_ctr_bits cfg"
    using assms le_two_power_bits_for [of "font_width cfg"] by (simp add: font_h_ctr_bits_def)
  with assms show ?thesis
    by (auto simp: scan_regs_def scan_fields sync_scan_def pixel_in_def)
qed

lemma scan_tick_hblank: "scan_regs (tick cfg mem hblank_in s) = scan_regs s"
  by (simp add: scan_regs_def scan_fields sync_scan_def hblank_in_def)

lemma scan_tick_vblank: "scan_regs (tick cfg mem vblank_in s) = scan_regs s"
  by (simp add: scan_regs_def scan_fields sync_scan_def vblank_in_def)

lemma scan_tick_vsync: "scan_regs (tick cfg mem vsync_in s) = (0, 0, 0, 0)"
  by (simp add: scan_regs_def scan_fields sync_scan_def vsync_in_def)

lemma scan_tick_hsync:
  assumes "font_v_ctr s < font_height cfg"
  shows "scan_regs (tick cfg mem hsync_in s) =
    (if font_v_ctr s = font_height cfg - 1 then (char_ctr s, char_ctr s, 0, 0)
     else (char_l_ctr s, char_l_ctr s, 0, font_v_ctr s + 1))"
proof -
  have "font_height cfg \<le> 2 ^ font_v_ctr_bits cfg"
    using assms le_two_power_bits_for [of "font_height cfg"] by (simp add: font_v_ctr_bits_def)
  with assms show ?thesis
    by (auto simp: scan_regs_def scan_fields sync_scan_def hsync_in_def)
qed

lemma scan_run_hold:
  assumes "i = hblank_in \<or> i = vblank_in"
  shows "scan_regs (run cfg mem (replicate n i) s) = scan_regs s"
  using assms by (induction n arbitrary: s) (auto simp: scan_tick_hblank scan_tick_vblank)

lemma scan_trace_hold:
  assumes "i = hblank_in \<or> i = vblank_in" and "t \<in> set (trace cfg mem (replicate n i) s)"
  shows "scan_regs t = scan_regs s"
  using assms by (induction n arbitrary: s) (auto simp: scan_tick_hblank scan_tick_vblank)

lemma pixel_run:
  assumes "0 < font_width cfg" and "font_h_ctr s = 0"
    and "char_ctr s < 2 ^ char_ctr_bits cfg"
  shows "scan_regs (run cfg mem (replicate k pixel_in) s) =
    ((char_ctr s + (k + font_width cfg - 1) div font_width cfg) mod 2 ^ char_ctr_bits cfg,
     char_l_ctr s, k mod font_width cfg, font_v_ctr s)"
proof (induction k)
  case 0
  with assms show ?case by (simp add: scan_regs_def)
next
  case (Suc k)
  let ?n = "font_width cfg"
  let ?t = "run cfg mem (replicate k pixel_in) s"
  have r: "run cfg mem (replicate (Suc k) pixel_in) s = tick cfg mem pixel_in ?t"
    by (simp only: replicate_append_same [symmetric] replicate_Suc run_append) simp
  from Suc have f: "char_ctr ?t = (char_ctr s + (k + ?n - 1) div ?n) mod 2 ^ char_ctr_bits cfg"
    "char_l_ctr ?t = char_l_ctr s" "font_h_ctr ?t = k mod ?n" "font_v_ctr ?t = font_v_ctr s"
    by (simp_all add: scan_regs_def)
  from assms(1) f(3) have lt: "font_h_ctr ?t < ?n" by simp
  have c1: "(Suc k + ?n - 1) div ?n = Suc (k div ?n)"
    using assms(1) by (simp add: div_add_self2)
  have h: "(if k mod ?n = ?n - 1 then 0 else k mod ?n + 1) = Suc k mod ?n"
    using assms(1) by (auto simp: mod_Suc)
  have c0: "(k + ?n - 1) div ?n = (if k mod ?n = 0 then k div ?n else Suc (k div ?n))"
    by (rule ceil_div [OF assms(1)])
  show ?case
  proof (cases "k mod ?n = 0")
    case True
    then show ?thesis
      unfolding r scan_tick_pixel [OF lt] f c1 c0 h
      by (simp add: mod_Suc_eq)
  next
    case False
    then show ?thesis
      unfolding r scan_tick_pixel [OF lt] f c1 c0 h
      by simp
  qed
qed


lemma pixel_trace:
  assumes "0 < font_width cfg" and "font_h_ctr s = 0"
    and "char_ctr s < 2 ^ char_ctr_bits cfg"
  shows "map char_ctr (trace cfg mem (replicate k pixel_in) s) =
      map (\<lambda>j. (char_ctr s + (j + font_width cfg - 1) div font_width cfg)
             mod 2 ^ char_ctr_bits cfg) [0..<k]"
    and "t \<in> set (trace cfg mem (replicate k pixel_in) s) \<Longrightarrow>
      char_l_ctr t = char_l_ctr s \<and> font_v_ctr t = font_v_ctr s"
proof -
  have nth: "trace cfg mem (replicate k pixel_in) s ! j = run cfg mem (replicate j pixel_in) s"
    if "j < k" for j
    using that by (simp add: nth_trace min_def)
  show "map char_ctr (trace cfg mem (replicate k pixel_in) s) =
      map (\<lambda>j. (char_ctr s + (j + font_width cfg - 1) div font_width cfg)
             mod 2 ^ char_ctr_bits cfg) [0..<k]"
  proof (rule nth_equalityI)
    show "length (map char_ctr (trace cfg mem (replicate k pixel_in) s)) =
      length (map (\<lambda>j. (char_ctr s + (j + font_width cfg - 1) div font_width cfg)
             mod 2 ^ char_ctr_bits cfg) [0..<k])"
      by (simp add: length_trace)
  next
    fix j assume "j < length (map char_ctr (trace cfg mem (replicate k pixel_in) s))"
    then have j: "j < k" by (simp add: length_trace)
    from pixel_run [OF assms, of mem j]
    have "char_ctr (run cfg mem (replicate j pixel_in) s) =
      (char_ctr s + (j + font_width cfg - 1) div font_width cfg) mod 2 ^ char_ctr_bits cfg"
      by (simp add: scan_regs_def)
    with j show "map char_ctr (trace cfg mem (replicate k pixel_in) s) ! j =
      map (\<lambda>j. (char_ctr s + (j + font_width cfg - 1) div font_width cfg)
             mod 2 ^ char_ctr_bits cfg) [0..<k] ! j"
      by (simp add: length_trace nth)
  qed
  assume "t \<in> set (trace cfg mem (replicate k pixel_in) s)"
  then obtain j where j: "j < k" and t: "t = trace cfg mem (replicate k pixel_in) s ! j"
    by (auto simp: in_set_conv_nth length_trace)
  from pixel_run [OF assms, of mem j] t nth [OF j]
  show "char_l_ctr t = char_l_ctr s \<and> font_v_ctr t = font_v_ctr s"
    by (simp add: scan_regs_def)
qed

lemma line_scan:
  assumes fw: "0 < font_width cfg" and dv: "font_width cfg dvd h_active cfg"
    and s: "scan_regs s = (R, R, 0, v)" and R: "R < 2 ^ char_ctr_bits cfg"
  shows "map char_ctr (trace cfg mem (scanline cfg hb hf) s) = scanline_addresses cfg hb hf R"
    and "t \<in> set (trace cfg mem (scanline cfg hb hf) s) \<Longrightarrow> char_l_ctr t = R \<and> font_v_ctr t = v"
    and "v < font_height cfg \<Longrightarrow> scan_regs (run cfg mem (scanline cfg hb hf) s) =
      (if v = font_height cfg - 1
       then ((R + cells_per_row cfg) mod 2 ^ char_ctr_bits cfg,
             (R + cells_per_row cfg) mod 2 ^ char_ctr_bits cfg, 0, 0)
       else (R, R, 0, Suc v))"
proof -
  let ?R' = "(R + cells_per_row cfg) mod 2 ^ char_ctr_bits cfg"
  let ?A = "replicate hb hblank_in" and ?B = "replicate (h_active cfg) pixel_in"
  let ?C = "replicate hf hblank_in"
  let ?sA = "run cfg mem ?A s"
  let ?sB = "run cfg mem ?B ?sA"
  let ?sC = "run cfg mem ?C ?sB"
  have sA: "scan_regs ?sA = (R, R, 0, v)"
    using s by (simp add: scan_run_hold)
  then have sA': "font_h_ctr ?sA = 0" "char_ctr ?sA = R" "char_l_ctr ?sA = R" "font_v_ctr ?sA = v"
    by (simp_all add: scan_regs_def)
  from R sA' have RA: "char_ctr ?sA < 2 ^ char_ctr_bits cfg" by simp
  have cd: "(h_active cfg + font_width cfg - 1) div font_width cfg = cells_per_row cfg"
    using dv unfolding ceil_div [OF fw] cells_per_row_def by (simp add: dvd_eq_mod_eq_0)
  have sB: "scan_regs ?sB = (?R', R, 0, v)"
    using pixel_run [OF fw sA'(1) RA, of mem "h_active cfg", unfolded cd] dv
    by (simp add: sA' dvd_eq_mod_eq_0)
  have sC: "scan_regs ?sC = (?R', R, 0, v)"
    using sB by (simp add: scan_run_hold)
  have tr: "trace cfg mem (scanline cfg hb hf) s =
      trace cfg mem ?A s @ trace cfg mem ?B ?sA @ trace cfg mem ?C ?sB @ [?sC]"
    by (simp add: scanline_def trace_append run_append)
  have tA: "map char_ctr (trace cfg mem ?A s) = replicate hb R"
  proof -
    have "\<forall>x \<in> set (map char_ctr (trace cfg mem ?A s)). x = R"
      using scan_trace_hold [of hblank_in _ cfg mem hb s] s by (auto simp: scan_regs_def)
    from replicate_length_same [OF this] show ?thesis by (simp add: length_trace)
  qed
  have tC: "map char_ctr (trace cfg mem ?C ?sB) = replicate hf ?R'"
  proof -
    have "\<forall>x \<in> set (map char_ctr (trace cfg mem ?C ?sB)). x = ?R'"
      using scan_trace_hold [of hblank_in _ cfg mem hf ?sB] sB by (auto simp: scan_regs_def)
    from replicate_length_same [OF this] show ?thesis by (simp add: length_trace)
  qed
  have tB: "map char_ctr (trace cfg mem ?B ?sA) =
      map (\<lambda>j. (R + (j + font_width cfg - 1) div font_width cfg) mod 2 ^ char_ctr_bits cfg)
        [0..<h_active cfg]"
    using pixel_trace(1) [OF fw sA'(1) RA, of mem "h_active cfg"] by (simp add: sA')
  from sC have cC: "char_ctr ?sC = ?R'" by (simp add: scan_regs_def)
  show "map char_ctr (trace cfg mem (scanline cfg hb hf) s) = scanline_addresses cfg hb hf R"
    unfolding tr scanline_addresses_def
    by (simp add: tA tB tC cC replicate_append_same)
  {
    assume "t \<in> set (trace cfg mem (scanline cfg hb hf) s)"
    then consider "t \<in> set (trace cfg mem ?A s)" | "t \<in> set (trace cfg mem ?B ?sA)"
      | "t \<in> set (trace cfg mem ?C ?sB)" | "t = ?sC"
      unfolding tr by auto
    then show "char_l_ctr t = R \<and> font_v_ctr t = v"
    proof cases
      case 1
      from scan_trace_hold [OF _ this] s show ?thesis by (simp add: scan_regs_def)
    next
      case 2
      from pixel_trace(2) [OF fw sA'(1) RA this] show ?thesis by (simp add: sA')
    next
      case 3
      from scan_trace_hold [OF _ this] sB show ?thesis by (simp add: scan_regs_def)
    next
      case 4
      with sC show ?thesis by (simp add: scan_regs_def)
    qed
  }
  assume v: "v < font_height cfg"
  have rn: "run cfg mem (scanline cfg hb hf) s = tick cfg mem hsync_in ?sC"
    by (simp add: scanline_def run_append)
  from sC have fC: "char_ctr ?sC = ?R'" "char_l_ctr ?sC = R" "font_v_ctr ?sC = v"
    by (simp_all add: scan_regs_def)
  from fC v have lt: "font_v_ctr ?sC < font_height cfg" by simp
  show "scan_regs (run cfg mem (scanline cfg hb hf) s) =
      (if v = font_height cfg - 1 then (?R', ?R', 0, 0) else (R, R, 0, Suc v))"
    unfolding rn scan_tick_hsync [OF lt] fC by simp
qed


lemma lines_of_row_group:
  assumes fw: "0 < font_width cfg" and dv: "font_width cfg dvd h_active cfg"
    and s: "scan_regs s = (R, R, 0, 0)" and R: "R < 2 ^ char_ctr_bits cfg"
    and m: "m \<le> font_height cfg"
  shows "(m < font_height cfg \<longrightarrow>
           scan_regs (run cfg mem (concat (replicate m (scanline cfg hb hf))) s) = (R, R, 0, m)) \<and>
         map char_ctr (trace cfg mem (concat (replicate m (scanline cfg hb hf))) s) =
           concat (replicate m (scanline_addresses cfg hb hf R)) \<and>
         (\<forall>t \<in> set (trace cfg mem (concat (replicate m (scanline cfg hb hf))) s).
            char_l_ctr t = R)"
  using m
proof (induction m)
  case 0
  with s show ?case by simp
next
  case (Suc m)
  let ?l = "scanline cfg hb hf"
  let ?sm = "run cfg mem (concat (replicate m ?l)) s"
  from Suc have ih: "scan_regs ?sm = (R, R, 0, m)"
    "map char_ctr (trace cfg mem (concat (replicate m ?l)) s) =
       concat (replicate m (scanline_addresses cfg hb hf R))"
    "\<forall>t \<in> set (trace cfg mem (concat (replicate m ?l)) s). char_l_ctr t = R"
    and lt: "m < font_height cfg"
    by simp_all
  note ln = line_scan [OF fw dv ih(1) R, where mem = mem and hb = hb and hf = hf]
  have "scan_regs (run cfg mem (concat (replicate (Suc m) ?l)) s) = (R, R, 0, Suc m)"
    if "Suc m < font_height cfg"
    using that ln(3) [OF lt] by (simp only: concat_replicate_Suc_snoc run_append) simp
  moreover have "map char_ctr (trace cfg mem (concat (replicate (Suc m) ?l)) s) =
      concat (replicate (Suc m) (scanline_addresses cfg hb hf R))"
    by (simp only: concat_replicate_Suc_snoc trace_append map_append ih(2) ln(1))
  moreover have "\<forall>t \<in> set (trace cfg mem (concat (replicate (Suc m) ?l)) s). char_l_ctr t = R"
    using ih(3) ln(2) by (simp only: concat_replicate_Suc_snoc trace_append) auto
  ultimately show ?case by blast
qed

lemma row_group_end:
  assumes fw: "0 < font_width cfg" and dv: "font_width cfg dvd h_active cfg"
    and fh: "0 < font_height cfg"
    and s: "scan_regs s = (R, R, 0, 0)" and R: "R < 2 ^ char_ctr_bits cfg"
  shows "scan_regs (run cfg mem (row_group cfg hb hf) s) =
    ((R + cells_per_row cfg) mod 2 ^ char_ctr_bits cfg,
     (R + cells_per_row cfg) mod 2 ^ char_ctr_bits cfg, 0, 0)"
proof -
  let ?l = "scanline cfg hb hf"
  obtain m where m: "font_height cfg = Suc m" using fh by (cases "font_height cfg") simp_all
  then have "m \<le> font_height cfg" "m < font_height cfg" by simp_all
  from lines_of_row_group [OF fw dv s R this(1), of mem hb hf] this(2)
  have sm: "scan_regs (run cfg mem (concat (replicate m ?l)) s) = (R, R, 0, m)" by simp
  have "run cfg mem (row_group cfg hb hf) s = run cfg mem ?l (run cfg mem (concat (replicate m ?l)) s)"
    unfolding row_group_def m by (simp only: concat_replicate_Suc_snoc run_append)
  then show ?thesis
    using line_scan(3) [OF fw dv sm R, where mem = mem and hb = hb and hf = hf] m by simp
qed

lemma scanline_addresses_le:
  assumes fw: "0 < font_width cfg" and dv: "font_width cfg dvd h_active cfg"
    and x: "x \<in> set (scanline_addresses cfg hb hf R)"
  shows "x \<le> R + cells_per_row cfg"
proof -
  let ?n = "font_width cfg" and ?w = "2 ^ char_ctr_bits cfg :: nat"
  from x consider "x = R" | j where "j < h_active cfg" "x = (R + (j + ?n - 1) div ?n) mod ?w"
    | "x = (R + cells_per_row cfg) mod ?w"
    by (auto simp: scanline_addresses_def)
  then show ?thesis
  proof cases
    case 1
    then show ?thesis by simp
  next
    case 2
    from dv have h: "h_active cfg = cells_per_row cfg * ?n" by (simp add: cells_per_row_def)
    with 2(1) have "j div ?n < cells_per_row cfg"
      using fw by (simp add: div_less_iff_less_mult)
    then have "(j + ?n - 1) div ?n \<le> cells_per_row cfg"
      unfolding ceil_div [OF fw] by simp
    moreover have "x \<le> R + (j + ?n - 1) div ?n" unfolding 2(2) by (rule mod_less_eq_dividend)
    ultimately show ?thesis by simp
  next
    case 3
    show ?thesis unfolding 3 by (rule mod_less_eq_dividend)
  qed
qed

lemma lines_of_frame:
  assumes fw: "0 < font_width cfg" and dv: "font_width cfg dvd h_active cfg"
    and fh: "0 < font_height cfg" and dh: "font_height cfg dvd v_active cfg"
    and s: "scan_regs s = (0, 0, 0, 0)"
    and m: "m \<le> v_active cfg"
  shows "scan_regs (run cfg mem (concat (replicate m (scanline cfg hb hf))) s) =
           (((m div font_height cfg) * cells_per_row cfg) mod 2 ^ char_ctr_bits cfg,
            ((m div font_height cfg) * cells_per_row cfg) mod 2 ^ char_ctr_bits cfg,
            0, m mod font_height cfg) \<and>
         (\<forall>t \<in> set (trace cfg mem (concat (replicate m (scanline cfg hb hf))) s).
            char_ctr t \<le> char_mem_depth cfg \<and> char_l_ctr t \<le> char_mem_depth cfg)"
  using m
proof (induction m)
  case 0
  with s show ?case by simp
next
  case (Suc m)
  let ?l = "scanline cfg hb hf" and ?h = "font_height cfg" and ?w = "2 ^ char_ctr_bits cfg :: nat"
  let ?c = "cells_per_row cfg"
  let ?sm = "run cfg mem (concat (replicate m ?l)) s"
  let ?R = "((m div ?h) * ?c) mod ?w"
  from Suc have ih: "scan_regs ?sm = (?R, ?R, 0, m mod ?h)"
    "\<forall>t \<in> set (trace cfg mem (concat (replicate m ?l)) s).
        char_ctr t \<le> char_mem_depth cfg \<and> char_l_ctr t \<le> char_mem_depth cfg"
    and lt: "m < v_active cfg"
    by simp_all
  have R: "?R < ?w" by simp
  have v: "m mod ?h < ?h" using fh by simp
  note ln = line_scan [OF fw dv ih(1) R, where mem = mem and hb = hb and hf = hf]
  from dh have va: "v_active cfg = (v_active cfg div ?h) * ?h" by simp
  with lt have "m div ?h < v_active cfg div ?h"
    using fh by (metis div_less_iff_less_mult)
  then have "Suc (m div ?h) * ?c \<le> (v_active cfg div ?h) * ?c"
    by (intro mult_le_mono1) simp
  then have top: "(m div ?h) * ?c + ?c \<le> char_mem_depth cfg"
    by (simp add: char_mem_depth_def cells_per_row_def mult.commute)
  have Rle: "?R \<le> (m div ?h) * ?c" by (rule mod_less_eq_dividend)
  have bound: "char_ctr t \<le> char_mem_depth cfg \<and> char_l_ctr t \<le> char_mem_depth cfg"
    if t: "t \<in> set (trace cfg mem ?l ?sm)" for t
  proof -
    from t have "char_ctr t \<in> set (map char_ctr (trace cfg mem ?l ?sm))" by simp
    then have "char_ctr t \<in> set (scanline_addresses cfg hb hf ?R)" by (simp only: ln(1))
    from scanline_addresses_le [OF fw dv this] have "char_ctr t \<le> ?R + ?c" .
    moreover from ln(2) [OF t] have "char_l_ctr t = ?R" by simp
    ultimately show ?thesis using top Rle by linarith
  qed
  have nxt: "scan_regs (run cfg mem ?l ?sm) =
      (((Suc m div ?h) * ?c) mod ?w, ((Suc m div ?h) * ?c) mod ?w, 0, Suc m mod ?h)"
  proof (cases "m mod ?h = ?h - 1")
    case True
    with fh have e: "Suc (m mod ?h) = ?h" by simp
    then have d: "Suc m div ?h = Suc (m div ?h)" "Suc m mod ?h = 0"
      by (simp_all add: div_Suc mod_Suc)
    have "(?R + ?c) mod ?w = ((m div ?h) * ?c + ?c) mod ?w"
      by (rule mod_add_left_eq)
    then have "(?R + ?c) mod ?w = (Suc (m div ?h) * ?c) mod ?w"
      by (simp add: add.commute)
    with ln(3) [OF v] True show ?thesis unfolding d by simp
  next
    case False
    with v have e: "Suc (m mod ?h) \<noteq> ?h" by simp
    then have d: "Suc m div ?h = m div ?h" "Suc m mod ?h = Suc (m mod ?h)"
      by (simp_all add: div_Suc mod_Suc)
    from ln(3) [OF v] False show ?thesis unfolding d by simp
  qed
  have "scan_regs (run cfg mem (concat (replicate (Suc m) ?l)) s) =
      (((Suc m div ?h) * ?c) mod ?w, ((Suc m div ?h) * ?c) mod ?w, 0, Suc m mod ?h)"
    using nxt by (simp only: concat_replicate_Suc_snoc run_append)
  moreover have "\<forall>t \<in> set (trace cfg mem (concat (replicate (Suc m) ?l)) s).
      char_ctr t \<le> char_mem_depth cfg \<and> char_l_ctr t \<le> char_mem_depth cfg"
    using ih(2) bound by (simp only: concat_replicate_Suc_snoc trace_append) auto
  ultimately show ?case by blast
qed

lemma run_cell_registers_fit:
  assumes "char_ctr s < 2 ^ char_ctr_bits cfg" and "char_l_ctr s < 2 ^ char_ctr_bits cfg"
  shows "char_ctr (run cfg mem ins s) < 2 ^ char_ctr_bits cfg \<and>
         char_l_ctr (run cfg mem ins s) < 2 ^ char_ctr_bits cfg"
  using assms
proof (induction ins arbitrary: s)
  case Nil
  then show ?case by simp
next
  case (Cons i ins)
  have "char_ctr (tick cfg mem i s) < 2 ^ char_ctr_bits cfg"
    "char_l_ctr (tick cfg mem i s) < 2 ^ char_ctr_bits cfg"
    using Cons.prems by (auto simp: scan_fields sync_scan_def)
  from Cons.IH [OF this] show ?case by simp
qed

text \<open>
  Claim C1, as amended.  Let a row group be entered with \<open>char_ctr = char_l_ctr = R\<close> and
  both glyph counters at zero, and let the engine be driven through the \<open>font_height\<close>
  scanlines of the row group, the active width being a multiple of the glyph width.  Then the
  addresses presented to the cell buffers are the same on every one of the \<open>font_height\<close>
  scanlines: \<open>R\<close> up to and including the first pixel tick, then \<open>R + 1\<close>, ..., up to
  \<open>R + cells_per_row\<close>, each taken modulo \<open>2 ^ char_ctr_bits\<close>, the address changing on the
  first pixel tick of every glyph; so each of \<open>R, ..., R + cells_per_row - 1\<close> is presented
  once per scanline, followed by the prefetched address of the next row.  \<open>char_l_ctr\<close> is
  \<open>R\<close> before every tick of the row group, and the line advance that ends the last scanline
  sets it to \<open>(R + cells_per_row) mod 2 ^ char_ctr_bits\<close>, which is \<open>R + cells_per_row\<close>
  whenever that fits the counter.  A counter of \<open>char_ctr_bits\<close> bits always holds a value
  below \<open>2 ^ char_ctr_bits\<close> (lemma \<open>run_cell_registers_fit\<close>).
\<close>

theorem row_group_scan:
  assumes "0 < font_width cfg" and "font_width cfg dvd h_active cfg"
    and "0 < font_height cfg"
    and "char_ctr s = R" and "char_l_ctr s = R" and "font_h_ctr s = 0" and "font_v_ctr s = 0"
    and "R < 2 ^ char_ctr_bits cfg"
  shows "map char_ctr (trace cfg mem (row_group cfg hb hf) s) =
           concat (replicate (font_height cfg) (scanline_addresses cfg hb hf R)) \<and>
         (\<forall>t \<in> set (trace cfg mem (row_group cfg hb hf) s). char_l_ctr t = R) \<and>
         char_l_ctr (run cfg mem (row_group cfg hb hf) s) =
           (R + cells_per_row cfg) mod 2 ^ char_ctr_bits cfg \<and>
         char_ctr (run cfg mem (row_group cfg hb hf) s) =
           (R + cells_per_row cfg) mod 2 ^ char_ctr_bits cfg \<and>
         font_v_ctr (run cfg mem (row_group cfg hb hf) s) = 0 \<and>
         font_h_ctr (run cfg mem (row_group cfg hb hf) s) = 0 \<and>
         (R + cells_per_row cfg < 2 ^ char_ctr_bits cfg \<longrightarrow>
            char_l_ctr (run cfg mem (row_group cfg hb hf) s) = R + cells_per_row cfg)"
proof -
  from assms(4-7) have s: "scan_regs s = (R, R, 0, 0)" by (simp add: scan_regs_def)
  from lines_of_row_group [OF assms(1,2) s assms(8) order_refl, of mem hb hf]
  have tr: "map char_ctr (trace cfg mem (row_group cfg hb hf) s) =
           concat (replicate (font_height cfg) (scanline_addresses cfg hb hf R))"
    and l: "\<forall>t \<in> set (trace cfg mem (row_group cfg hb hf) s). char_l_ctr t = R"
    by (simp_all add: row_group_def)
  from row_group_end [OF assms(1,2,3) s assms(8), of mem hb hf]
  have e: "char_l_ctr (run cfg mem (row_group cfg hb hf) s) =
           (R + cells_per_row cfg) mod 2 ^ char_ctr_bits cfg"
    "char_ctr (run cfg mem (row_group cfg hb hf) s) =
           (R + cells_per_row cfg) mod 2 ^ char_ctr_bits cfg"
    "font_v_ctr (run cfg mem (row_group cfg hb hf) s) = 0"
    "font_h_ctr (run cfg mem (row_group cfg hb hf) s) = 0"
    by (simp_all add: scan_regs_def)
  from tr l e show ?thesis by simp
qed

lemma char_ctr_bits_vga: "char_ctr_bits vga_cfg = 12"
  by (simp add: char_ctr_bits_def char_mem_depth_def vga_cfg_def bits_for_def bit_length.simps)

theorem row_group_scan_witness:
  "0 < font_width vga_cfg \<and> font_width vga_cfg dvd h_active vga_cfg \<and> 0 < font_height vga_cfg \<and>
   char_ctr (power_on\<lparr>char_ctr := 80, char_l_ctr := 80\<rparr>) = 80 \<and>
   char_l_ctr (power_on\<lparr>char_ctr := 80, char_l_ctr := 80\<rparr>) = 80 \<and>
   font_h_ctr (power_on\<lparr>char_ctr := 80, char_l_ctr := 80\<rparr>) = 0 \<and>
   font_v_ctr (power_on\<lparr>char_ctr := 80, char_l_ctr := 80\<rparr>) = 0 \<and>
   (80::nat) < 2 ^ char_ctr_bits vga_cfg \<and>
   char_l_ctr (run vga_cfg empty_mem (row_group vga_cfg 48 16)
     (power_on\<lparr>char_ctr := 80, char_l_ctr := 80\<rparr>)) = 160"
proof -
  have h: "0 < font_width vga_cfg" "font_width vga_cfg dvd h_active vga_cfg"
    "0 < font_height vga_cfg"
    "char_ctr (power_on\<lparr>char_ctr := 80, char_l_ctr := 80\<rparr>) = 80"
    "char_l_ctr (power_on\<lparr>char_ctr := 80, char_l_ctr := 80\<rparr>) = 80"
    "font_h_ctr (power_on\<lparr>char_ctr := 80, char_l_ctr := 80\<rparr>) = 0"
    "font_v_ctr (power_on\<lparr>char_ctr := 80, char_l_ctr := 80\<rparr>) = 0"
    "(80::nat) < 2 ^ char_ctr_bits vga_cfg"
    by (simp_all add: char_ctr_bits_vga) (simp_all add: vga_cfg_def power_on_def)
  have c: "cells_per_row vga_cfg = 80" by (simp add: cells_per_row_def vga_cfg_def)
  from row_group_scan [OF h, of empty_mem 48 16]
  have "char_l_ctr (run vga_cfg empty_mem (row_group vga_cfg 48 16)
     (power_on\<lparr>char_ctr := 80, char_l_ctr := 80\<rparr>)) =
     (80 + cells_per_row vga_cfg) mod 2 ^ char_ctr_bits vga_cfg"
    by blast
  then have "char_l_ctr (run vga_cfg empty_mem (row_group vga_cfg 48 16)
     (power_on\<lparr>char_ctr := 80, char_l_ctr := 80\<rparr>)) = 160"
    by (simp add: c char_ctr_bits_vga)
  with h show ?thesis by blast
qed

text \<open>
  The claim as stated fails for the last row group of a grid whose cell count is a power of
  two.  In the grid of two by two cells the second row group is entered at \<open>R = 2\<close>; the line
  advance after its last scanline sets \<open>char_l_ctr\<close> to \<open>0\<close>, not to \<open>R + cells_per_row = 4\<close>.
\<close>

theorem row_group_counterexample:
  "char_ctr (run small_cfg empty_mem (vsync_in # row_group small_cfg 0 0) power_on) = 2 \<and>
   char_l_ctr (run small_cfg empty_mem (vsync_in # row_group small_cfg 0 0) power_on) = 2 \<and>
   font_h_ctr (run small_cfg empty_mem (vsync_in # row_group small_cfg 0 0) power_on) = 0 \<and>
   font_v_ctr (run small_cfg empty_mem (vsync_in # row_group small_cfg 0 0) power_on) = 0 \<and>
   char_l_ctr (run small_cfg empty_mem (row_group small_cfg 0 0)
     (run small_cfg empty_mem (vsync_in # row_group small_cfg 0 0) power_on)) \<noteq>
   2 + cells_per_row small_cfg"
proof -
  let ?S = "run small_cfg empty_mem (vsync_in # row_group small_cfg 0 0) power_on"
  have entry: "scan_regs ?S = (2, 2, 0, 0)"
    unfolding scan_regs_run by code_simp
  have "scan_regs (run small_cfg empty_mem (row_group small_cfg 0 0) ?S) = (0, 0, 0, 0)"
    unfolding scan_regs_run [of _ _ "row_group small_cfg 0 0"] entry by code_simp
  moreover have "cells_per_row small_cfg = 2"
    by (simp add: cells_per_row_def small_cfg_def)
  ultimately show ?thesis
    using entry by (simp add: scan_regs_def)
qed

text \<open>
  Claim C8, as amended.  Let the active width be a multiple of the glyph width and the active
  height a multiple of the glyph height.  In every state from the frame reset to the end of
  a normal frame, \<open>char_ctr\<close> and \<open>char_l_ctr\<close> are at most the total cell count
  \<open>char_mem_depth\<close>; no statement wraps either counter.
\<close>

theorem frame_cell_bounds:
  assumes "0 < font_width cfg" and "font_width cfg dvd h_active cfg"
    and "0 < font_height cfg" and "font_height cfg dvd v_active cfg"
  shows "\<forall>t \<in> set (trace cfg mem (frame_body cfg hb hf vb) (tick cfg mem vsync_in s)) \<union>
           {run cfg mem (frame cfg hb hf vb) s}.
           char_ctr t \<le> char_mem_depth cfg \<and> char_l_ctr t \<le> char_mem_depth cfg"
proof -
  let ?s0 = "tick cfg mem vsync_in s"
  let ?ls = "concat (replicate (v_active cfg) (scanline cfg hb hf))"
  let ?B = "\<lambda>t. char_ctr t \<le> char_mem_depth cfg \<and> char_l_ctr t \<le> char_mem_depth cfg"
  let ?e = "run cfg mem ?ls ?s0"
  have s0: "scan_regs ?s0 = (0, 0, 0, 0)" by (rule scan_tick_vsync)
  from lines_of_frame [OF assms s0 order_refl, of mem hb hf]
  have e: "scan_regs ?e =
      (((v_active cfg div font_height cfg) * cells_per_row cfg) mod 2 ^ char_ctr_bits cfg,
       ((v_active cfg div font_height cfg) * cells_per_row cfg) mod 2 ^ char_ctr_bits cfg,
       0, v_active cfg mod font_height cfg)"
    and ls: "\<forall>t \<in> set (trace cfg mem ?ls ?s0). ?B t"
    by simp_all
  have "((v_active cfg div font_height cfg) * cells_per_row cfg) mod 2 ^ char_ctr_bits cfg
      \<le> (v_active cfg div font_height cfg) * cells_per_row cfg"
    by (rule mod_less_eq_dividend)
  also have "\<dots> = char_mem_depth cfg"
    by (simp add: char_mem_depth_def cells_per_row_def mult.commute)
  finally have Be: "?B ?e" using e by (simp add: scan_regs_def)
  have hold: "?B t" if "scan_regs t = scan_regs ?e" for t
    using that Be by (simp add: scan_regs_def)
  have vb: "\<forall>t \<in> set (trace cfg mem (replicate vb vblank_in) ?e). ?B t"
    using scan_trace_hold [of vblank_in _ cfg mem vb ?e] hold by blast
  have fin: "?B (run cfg mem (replicate vb vblank_in) ?e)"
    using scan_run_hold [of vblank_in cfg mem vb ?e] hold by blast
  have "run cfg mem (frame cfg hb hf vb) s = run cfg mem (replicate vb vblank_in) ?e"
    by (simp add: frame_def frame_body_def run_append)
  moreover have "trace cfg mem (frame_body cfg hb hf vb) ?s0 =
      trace cfg mem ?ls ?s0 @ trace cfg mem (replicate vb vblank_in) ?e"
    by (simp add: frame_body_def trace_append)
  ultimately show ?thesis using ls vb fin by auto
qed

theorem frame_cell_bounds_witness:
  "0 < font_width vga_cfg \<and> font_width vga_cfg dvd h_active vga_cfg \<and>
   0 < font_height vga_cfg \<and> font_height vga_cfg dvd v_active vga_cfg \<and>
   char_ctr (run vga_cfg empty_mem (frame vga_cfg 48 16 8000) power_on) \<le> char_mem_depth vga_cfg \<and>
   char_l_ctr (run vga_cfg empty_mem (frame vga_cfg 48 16 8000) power_on) \<le> char_mem_depth vga_cfg"
proof -
  have h: "0 < font_width vga_cfg" "font_width vga_cfg dvd h_active vga_cfg"
    "0 < font_height vga_cfg" "font_height vga_cfg dvd v_active vga_cfg"
    by (simp_all add: vga_cfg_def)
  from frame_cell_bounds [OF h, of empty_mem 48 16 8000 power_on] h
  show ?thesis by blast
qed

text \<open>
  The bound is not strict.  In a grid of one by three cells (three cells, a counter of two
  bits), the first pixel tick of the third row of cells, the fourteenth tick of the frame,
  leaves \<open>char_ctr = 3\<close>, the cell count.
\<close>

theorem frame_cell_bounds_counterexample:
  "\<not> char_ctr (run column_cfg empty_mem (take 14 (frame column_cfg 0 0 0)) power_on)
      < (h_active column_cfg div font_width column_cfg) *
        (v_active column_cfg div font_height column_cfg)"
proof -
  have "scan_regs (run column_cfg empty_mem (take 14 (frame column_cfg 0 0 0)) power_on) =
      (3, 2, 1, 0)"
    unfolding scan_regs_run by code_simp
  then show ?thesis
    by (simp add: scan_regs_def column_cfg_def)
qed


end
